theory Spec2Isabelle
  imports Complex_Main
begin

section \<open>Conventions of the embedding\<close>

text \<open>
  The solver of \<^verbatim>\<open>src/solver.py\<close> and the design parser of
  \<^verbatim>\<open>designs/design_parser.py\<close> are embedded as HOL functions.

  \<^item> Python floats are idealised as \<^typ>\<open>real\<close>: no rounding, no NaN. The one float value with
    no real counterpart that the source uses, \<^verbatim>\<open>float("Infinity")\<close>, is a constructor of
    \<open>pyfloat\<close>.
  \<^item> A DG0 function over the mesh is the list of its cell values (\<open>field\<close>); the mesh is the
    list of its cell measures, so that \<^verbatim>\<open>df.assemble(f * df.dx)\<close> is the weighted sum.
  \<^item> What the source calls in libraries it does not contain is a parameter, collected in the
    record \<open>extern\<close>: numpy's \<^verbatim>\<open>np.exp\<close>, dolfin's \<^verbatim>\<open>RectangleMesh\<close> and the
    methods of the \<^verbatim>\<open>Problem\<close> instance, whose hidden state has the type \<open>'p\<close>.
  \<^item> An exception or \<^verbatim>\<open>exit(1)\<close> is a value of \<open>error\<close>; a function that can raise
    returns \<open>error + 'a\<close>, together with the state at the point of the raise where the source
    has mutated state before.
  \<^item> What is printed and what is written to disk is a list of \<open>event\<close>s, in order.
\<close>

datatype error =
    ValueError string
  | KeyError string
  | IndexError
  | SystemExit int

datatype pyfloat = Finite real | Infinity

type_synonym field = "real list"

datatype event =
    Print string
  | Print_values int real "real option" pyfloat pyfloat
  | Save_rho field real int

section \<open>The squashing map\<close>

definition expit :: "(real \<Rightarrow> real) \<Rightarrow> real \<Rightarrow> real" where
  "expit ex x = 1 / (1 + ex (- x))"

definition expit_diff :: "(real \<Rightarrow> real) \<Rightarrow> real \<Rightarrow> real" where
  "expit_diff ex x = (let expit_val = expit ex x in expit_val * (1 - expit_val))"

definition logit :: "real \<Rightarrow> real" where
  "logit x = ln (x / (1 - x))"

text \<open>\<^verbatim>\<open>df.assemble(f * df.dx)\<close> for a DG0 function \<open>f\<close>: the cell values weighted by the
  cell measures.\<close>

definition assemble_dx :: "real list \<Rightarrow> field \<Rightarrow> real" where
  "assemble_dx vols f = sum_list (map2 (*) vols f)"

section \<open>The projection\<close>

text \<open>
  The loop \<^verbatim>\<open>for _ in range(max_iterations)\<close> of \<^verbatim>\<open>Solver.project\<close>, by recursion on
  the number of iterations that remain. The result holds the shift \<open>c\<close> or the exception, what
  was printed, and the number of loop bodies that were run (a ghost counter, nothing in the
  source reads it).
\<close>

definition derivative_zero_warning :: string where
  "derivative_zero_warning = ''Warning: Got derivative equal to zero during gradient descent.''"

definition derivative_zero_message :: string where
  "derivative_zero_message = ''Got derivative equal to zero while projecting psi''"

definition projection_warning :: string where
  "projection_warning =
     ''Warning: Projection reached maximum iteration without converging. Result may not be accurate.''"

fun newton :: "(real \<Rightarrow> real) \<Rightarrow> real list \<Rightarrow> field \<Rightarrow> real \<Rightarrow> real \<Rightarrow> nat
    \<Rightarrow> (error + real) \<times> event list \<times> nat" where
  "newton ex vols half_step volume c 0 = (Inr c, [Print projection_warning], 0)"
| "newton ex vols half_step volume c (Suc n) =
     (let error = assemble_dx vols (map (\<lambda>x. expit ex (x + c)) half_step) - volume;
          derivative = assemble_dx vols (map (\<lambda>x. expit_diff ex (x + c)) half_step)
      in if derivative = 0
         then (Inl (ValueError derivative_zero_message), [Print derivative_zero_warning], 1)
         else let newton_step = error / derivative;
                  c' = c - newton_step
              in if \<bar>newton_step\<bar> < 1 / 10 ^ 12
                 then (Inr c', [], 1)
                 else (case newton ex vols half_step volume c' n of
                         (r, evs, its) \<Rightarrow> (r, evs, Suc its)))"

definition max_iterations :: nat where
  "max_iterations = 10"

definition project :: "(real \<Rightarrow> real) \<Rightarrow> real list \<Rightarrow> field \<Rightarrow> real
    \<Rightarrow> (error + field) \<times> event list \<times> nat" where
  "project ex vols half_step volume =
     (case newton ex vols half_step volume 0 max_iterations of
        (Inl e, evs, its) \<Rightarrow> (Inl e, evs, its)
      | (Inr c, evs, its) \<Rightarrow> (Inr (map (\<lambda>x. x + c) half_step), evs, its))"

section \<open>The step size\<close>

definition step_size :: "int \<Rightarrow> int" where
  "step_size k = 25 * (k + 1)"


section \<open>The design parser\<close>

text \<open>
  The design is the JSON object that \<^verbatim>\<open>json.load\<close> returns. A key of the object is a field
  of the record \<open>design\<close>, \<open>None\<close> when the key is absent; the values are taken to have the
  JSON types the parser expects. The messages the parser prints before it raises are left out:
  the error value tells the failures apart.
\<close>

datatype Side = LEFT | RIGHT | TOP | BOTTOM


record SolverParameters =
  sp_problem :: string
  sp_objective :: string
  sp_width :: real
  sp_height :: real
  sp_fraction :: real

record Flow =
  flow_side :: Side
  flow_center :: real
  flow_length :: real
  flow_rate :: real

record Region =
  region_center :: "real \<times> real"
  region_size :: "real \<times> real"

record ForceRegion =
  force_radius :: real
  force_center :: "real list"
  force_value :: "real list"

record Traction =
  traction_side :: Side
  traction_center :: real
  traction_length :: real
  traction_value :: "real list"






text \<open>\<^verbatim>\<open>design[key]\<close>: a missing key raises \<^verbatim>\<open>KeyError\<close>.\<close>

definition getitem :: "string \<Rightarrow> 'a option \<Rightarrow> error + 'a" where
  "getitem key v = (case v of None \<Rightarrow> Inl (KeyError key) | Some x \<Rightarrow> Inr x)"






datatype extra_data =
    Elasticity "ForceRegion option" "Side list" "Traction list"
  | Fluid "Flow list" "Side list option" "Side list option" "Region option"











section \<open>The solver\<close>

text \<open>
  The libraries the solver calls. \<open>np_exp\<close> is numpy's exponential as it is computed;
  \<open>RectangleMesh w h nx ny\<close> gives the measures of the cells of the mesh; the other fields
  are the methods of the \<^verbatim>\<open>Problem\<close> instance, which read and change its state \<open>'p\<close>.
  The gradient is taken to have one value for every cell.
\<close>

record 'p extern =
  np_exp :: "real \<Rightarrow> real"
  RectangleMesh :: "real \<Rightarrow> real \<Rightarrow> int \<Rightarrow> int \<Rightarrow> real list"
  problem_init :: "'p \<Rightarrow> real list \<Rightarrow> SolverParameters \<Rightarrow> extra_data \<Rightarrow> 'p"
  calculate_objective :: "'p \<Rightarrow> field \<Rightarrow> real \<times> 'p"
  calculate_objective_gradient :: "'p \<Rightarrow> field \<times> 'p"

text \<open>The attributes of \<^verbatim>\<open>self\<close> that the solver reads or changes, and \<open>out\<close>: what
  has been printed and saved so far.\<close>

record 'p Solver =
  N :: int
  width :: real
  height :: real
  volume :: real
  mesh :: "real list"
  rho :: field
  problem :: 'p
  out :: "event list"



definition step :: "'p extern \<Rightarrow> 'p Solver \<Rightarrow> field \<Rightarrow> int \<Rightarrow> (error + field) \<times> 'p Solver" where
  "step ext s previous_psi ss =
     (case calculate_objective_gradient ext (problem s) of
        (objective_gradient, p') \<Rightarrow>
          (let half_step = map2 (\<lambda>x g. x - real_of_int ss * g) previous_psi objective_gradient
           in case project (np_exp ext) (mesh s) half_step (volume s) of
                (r, evs, its) \<Rightarrow> (r, s\<lparr>problem := p', out := out s @ evs\<rparr>)))"

text \<open>The local variables of \<^verbatim>\<open>solve\<close>.\<close>

record locals =
  psi :: field
  previous_psi :: "field option"
  difference :: pyfloat
  objective :: real
  objective_difference :: "real option"

definition itol :: real where
  "itol = 1 / 10 ^ 2"

definition ntol :: real where
  "ntol = 1 / 10 ^ 5"

definition tolerance :: "int \<Rightarrow> real" where
  "tolerance k = min (real_of_int (step_size k) * ntol) itol"

definition print_values :: "int \<Rightarrow> real \<Rightarrow> real option \<Rightarrow> pyfloat \<Rightarrow> event" where
  "print_values k obj obj_diff diff =
     Print_values k obj obj_diff diff
       (case diff of Infinity \<Rightarrow> Infinity | Finite d \<Rightarrow> Finite (d - tolerance k))"

definition save_rho :: "'p Solver \<Rightarrow> field \<Rightarrow> real \<Rightarrow> int \<Rightarrow> 'p Solver" where
  "save_rho s r obj k = s\<lparr>out := out s @ [Save_rho r obj k]\<rparr>"

text \<open>How the loop of \<^verbatim>\<open>solve\<close> ends: the two \<^verbatim>\<open>break\<close>s and the \<^verbatim>\<open>else\<close> of the
  \<^verbatim>\<open>for\<close>, under the names the specification gives them.\<close>

datatype outcome = CONVERGED | DIVERGED | EXHAUSTED

definition exit_message :: "outcome \<Rightarrow> string" where
  "exit_message oc =
     (case oc of
        DIVERGED \<Rightarrow> ''EXIT: Step increased objective value''
      | CONVERGED \<Rightarrow> ''EXIT: Optimal solution found''
      | EXHAUSTED \<Rightarrow> ''EXIT: Iteration did not converge'')"

text \<open>The top of the loop body: the progress row and, every tenth iteration, a snapshot.\<close>

definition announce :: "int \<Rightarrow> 'p Solver \<Rightarrow> locals \<Rightarrow> 'p Solver" where
  "announce k s l =
     (let s1 = s\<lparr>out := out s @
                  [print_values k (objective l) (objective_difference l) (difference l)]\<rparr>
      in if k mod 10 = 0 then save_rho s1 (rho s1) (objective l) k else s1)"

text \<open>The L2 norm of the change of the density:
  \<^verbatim>\<open>np.sqrt(df.assemble((self.rho - previous_rho) ** 2 * df.dx))\<close>.\<close>

definition density_delta :: "real list \<Rightarrow> field \<Rightarrow> field \<Rightarrow> real" where
  "density_delta vols r previous_rho =
     sqrt (assemble_dx vols (map2 (\<lambda>a b. (a - b) ^ 2) r previous_rho))"

text \<open>One pass through the body of \<^verbatim>\<open>for k in range(500)\<close>. The result is the exception,
  \<open>Some\<close> outcome after a \<^verbatim>\<open>break\<close>, or \<open>None\<close> when the loop goes on.\<close>

definition iteration :: "'p extern \<Rightarrow> int \<Rightarrow> 'p Solver \<times> locals
    \<Rightarrow> (error + outcome option) \<times> 'p Solver \<times> locals" where
  "iteration ext k st =
     (case st of (s, l) \<Rightarrow>
        (let s2 = announce k s l;
             l1 = l\<lparr>previous_psi := Some (psi l)\<rparr>
         in case step ext s2 (psi l) (step_size k) of
              (Inl e, s3) \<Rightarrow> (Inl e, s3, l1)
            | (Inr psi', s3) \<Rightarrow>
                (let s4 = s3\<lparr>rho := map (expit (np_exp ext)) psi'\<rparr>;
                     previous_objective = objective l1
                 in case calculate_objective ext (problem s4) (rho s4) of
                      (obj, p') \<Rightarrow>
                        (let s5 = s4\<lparr>problem := p'\<rparr>;
                             obj_diff = previous_objective - obj;
                             l2 = l1\<lparr>psi := psi', objective := obj,
                                     objective_difference := Some obj_diff\<rparr>
                         in if obj_diff < 0
                            then (Inr (Some DIVERGED),
                                  s5\<lparr>out := out s5 @
                                     [print_values (k + 1) obj (Some obj_diff) (difference l2),
                                      Print (exit_message DIVERGED)]\<rparr>,
                                  l2)
                            else (let previous_rho = map (expit (np_exp ext)) (psi l);
                                      d = density_delta (mesh s5) (rho s5) previous_rho;
                                      l3 = l2\<lparr>difference := Finite d\<rparr>
                                  in if d < tolerance k
                                     then (Inr (Some CONVERGED),
                                           s5\<lparr>out := out s5 @
                                              [print_values (k + 1) obj (Some obj_diff) (Finite d),
                                               Print (exit_message CONVERGED)]\<rparr>,
                                           l3)
                                     else (Inr None, s5, l3))))))"

text \<open>
  The loop from iteration \<open>k\<close> on. The result carries the value the Python variable \<open>k\<close>
  has when the loop is left: the index of the iteration that broke out, or 499 when the
  range is used up.
\<close>

function solve_loop :: "'p extern \<Rightarrow> int \<Rightarrow> 'p Solver \<times> locals
    \<Rightarrow> (error + outcome \<times> int) \<times> 'p Solver \<times> locals" where
  "solve_loop ext k st =
     (if k < 500
      then (case iteration ext k st of
              (Inl e, st') \<Rightarrow> (Inl e, st')
            | (Inr (Some oc), st') \<Rightarrow> (Inr (oc, k), st')
            | (Inr None, st') \<Rightarrow> solve_loop ext (k + 1) st')
      else (case st of (s, l) \<Rightarrow>
              (Inr (EXHAUSTED, k - 1),
               s\<lparr>out := out s @
                  [print_values (k - 1 + 1) (objective l) (objective_difference l) (difference l),
                   Print (exit_message EXHAUSTED)]\<rparr>,
               l)))"
  by pat_completeness auto
termination
  by (relation "measure (\<lambda>(ext, k, st). nat (500 - k))") auto

text \<open>The two header lines; the box-drawing and Greek characters of the source are written
  in ASCII here.\<close>

definition header :: "string list" where
  "header = [''Iteration | Objective | dObjective |     drho    |  drho-tol  '',
             ''----------+-----------+------------+-----------+----------'']"

text \<open>The start of \<^verbatim>\<open>solve\<close>, up to the loop.\<close>

definition solve_start :: "'p extern \<Rightarrow> 'p Solver \<Rightarrow> 'p Solver \<times> locals" where
  "solve_start ext s =
     (case calculate_objective ext (problem s) (rho s) of
        (obj, p') \<Rightarrow>
          (s\<lparr>problem := p', out := out s @ map Print header\<rparr>,
           \<lparr>psi = map logit (rho s), previous_psi = None, difference = Infinity,
            objective = obj, objective_difference = None\<rparr>))"

text \<open>The end of \<^verbatim>\<open>solve\<close>: the final snapshot, unless an exception has left the loop.\<close>

definition solve_finish :: "(error + outcome \<times> int) \<times> 'p Solver \<times> locals
    \<Rightarrow> (error + outcome) \<times> 'p Solver \<times> locals" where
  "solve_finish r =
     (case r of
        (Inl e, s, l) \<Rightarrow> (Inl e, s, l)
      | (Inr (oc, k), s, l) \<Rightarrow> (Inr oc, save_rho s (rho s) (objective l) (k + 1), l))"

definition solve :: "'p extern \<Rightarrow> 'p Solver \<Rightarrow> (error + outcome) \<times> 'p Solver \<times> locals" where
  "solve ext s = solve_finish (solve_loop ext 0 (solve_start ext s))"

section \<open>Notions used to state the properties\<close>

text \<open>
  The quantities of Newton's method on \<open>f(c) = \<integral>expit(h + c)dx - V\<close>, as the loop body of
  \<^verbatim>\<open>project\<close> computes them at a shift \<open>c\<close>, and the shift after \<open>n\<close> updates from
  \<open>c = 0\<close>.
\<close>

definition newton_error :: "(real \<Rightarrow> real) \<Rightarrow> real list \<Rightarrow> field \<Rightarrow> real \<Rightarrow> real \<Rightarrow> real" where
  "newton_error ex vols h V c = assemble_dx vols (map (\<lambda>x. expit ex (x + c)) h) - V"

definition newton_derivative :: "(real \<Rightarrow> real) \<Rightarrow> real list \<Rightarrow> field \<Rightarrow> real \<Rightarrow> real" where
  "newton_derivative ex vols h c = assemble_dx vols (map (\<lambda>x. expit_diff ex (x + c)) h)"

definition newton_step :: "(real \<Rightarrow> real) \<Rightarrow> real list \<Rightarrow> field \<Rightarrow> real \<Rightarrow> real \<Rightarrow> real" where
  "newton_step ex vols h V c = newton_error ex vols h V c / newton_derivative ex vols h c"

fun newton_iterate :: "(real \<Rightarrow> real) \<Rightarrow> real list \<Rightarrow> field \<Rightarrow> real \<Rightarrow> nat \<Rightarrow> real" where
  "newton_iterate ex vols h V 0 = 0"
| "newton_iterate ex vols h V (Suc n) =
     newton_iterate ex vols h V n - newton_step ex vols h V (newton_iterate ex vols h V n)"

text \<open>The loop reaches its \<open>i\<close>-th body: no earlier body raised or broke out.\<close>

definition newton_reaches :: "(real \<Rightarrow> real) \<Rightarrow> real list \<Rightarrow> field \<Rightarrow> real \<Rightarrow> nat \<Rightarrow> bool" where
  "newton_reaches ex vols h V i =
     (\<forall>j<i. newton_derivative ex vols h (newton_iterate ex vols h V j) \<noteq> 0
          \<and> \<not> \<bar>newton_step ex vols h V (newton_iterate ex vols h V j)\<bar> < 1 / 10 ^ 12)"

text \<open>The latent field that \<^verbatim>\<open>step\<close> hands to \<^verbatim>\<open>project\<close> in iteration \<open>k\<close>.\<close>

definition half_step_of :: "'p extern \<Rightarrow> int \<Rightarrow> 'p Solver \<Rightarrow> locals \<Rightarrow> field" where
  "half_step_of ext k s l =
     map2 (\<lambda>x g. x - real_of_int (step_size k) * g) (psi l)
       (fst (calculate_objective_gradient ext (problem s)))"

text \<open>The states at the head of the loop of \<^verbatim>\<open>solve\<close>, and the state every pass through
  the body leaves, whether it goes on, breaks out or raises.\<close>

inductive reachable :: "'p extern \<Rightarrow> 'p Solver \<Rightarrow> int \<Rightarrow> 'p Solver \<times> locals \<Rightarrow> bool"
  for ext :: "'p extern" and s0 :: "'p Solver" where
  start: "reachable ext s0 0 (solve_start ext s0)"
| pass: "reachable ext s0 k st \<Longrightarrow> k < 500 \<Longrightarrow> iteration ext k st = (Inr None, st')
         \<Longrightarrow> reachable ext s0 (k + 1) st'"



text \<open>The number of progress rows in an output.\<close>

definition rows :: "event list \<Rightarrow> nat" where
  "rows evs = length (filter (\<lambda>e. case e of Print_values _ _ _ _ _ \<Rightarrow> True | _ \<Rightarrow> False) evs)"

section \<open>Concrete inputs\<close>

text \<open>An exponential that underflows to zero as the binary64 one does (the smallest positive
  double is \<open>2 ^ -1074\<close>, and \<open>exp (-746)\<close> is less than half of it).\<close>

definition exp_underflow :: "real \<Rightarrow> real" where
  "exp_underflow x = (if x \<le> - 746 then 0 else exp x)"

text \<open>A problem on a mesh of one cell of measure 1. Its state counts the calls of
  \<^verbatim>\<open>calculate_objective\<close>; the objective is \<open>a\<close> times that count, the gradient is \<open>g\<close>.\<close>

definition stub :: "(real \<Rightarrow> real) \<Rightarrow> real \<Rightarrow> real \<Rightarrow> nat extern" where
  "stub ex a g =
     \<lparr>np_exp = ex,
      RectangleMesh = (\<lambda>w h nx ny. [w * h]),
      problem_init = (\<lambda>p m parameters extra. p),
      calculate_objective = (\<lambda>p r. (a * real p, Suc p)),
      calculate_objective_gradient = (\<lambda>p. ([g], p))\<rparr>"

definition unit_square :: "nat Solver" where
  "unit_square =
     \<lparr>N = 1, width = 1, height = 1, volume = 1 / 2, mesh = [1], rho = [1 / 2],
      problem = 0, out = []\<rparr>"

text \<open>The same square for a volume fraction just below 1.\<close>

definition nearly_full :: "nat Solver" where
  "nearly_full =
     \<lparr>N = 1, width = 1, height = 1, volume = 1 - 1 / 10 ^ 9, mesh = [1],
      rho = [1 - 1 / 10 ^ 9], problem = 0, out = []\<rparr>"

text \<open>A problem with a constant objective on a mesh with the cell measures \<open>vols\<close>, whatever
  the rectangle; the gradient is \<open>gs\<close>.\<close>

definition stub_cells :: "(real \<Rightarrow> real) \<Rightarrow> real list \<Rightarrow> real list \<Rightarrow> nat extern" where
  "stub_cells ex vols gs =
     \<lparr>np_exp = ex,
      RectangleMesh = (\<lambda>w h nx ny. vols),
      problem_init = (\<lambda>p m parameters extra. p),
      calculate_objective = (\<lambda>p r. (0, Suc p)),
      calculate_objective_gradient = (\<lambda>p. (gs, p))\<rparr>"


text \<open>What \<^verbatim>\<open>Solver\<close> builds from that design on a mesh of three cells of measure 1.\<close>

definition three_cells :: "nat Solver" where
  "three_cells =
     \<lparr>N = 1, width = 3, height = 1, volume = 3 / 2, mesh = [1, 1, 1],
      rho = [1 / 2, 1 / 2, 1 / 2], problem = 0, out = []\<rparr>"

text \<open>A gradient that pushes the first cell down and the third cell up, under the
  exponential that underflows.\<close>

definition tilted :: "nat extern" where
  "tilted = stub_cells exp_underflow [1, 1, 1] [32, 0, - 32]"



section \<open>The sigmoid\<close>

lemma expit_exp_bounds: "0 < expit exp x \<and> expit exp x < 1"
proof -
  define e where "e = exp (- x)"
  have e: "0 < e" by (simp add: e_def)
  then have "0 < 1 / (1 + e)" by simp
  moreover have "1 / (1 + e) < 1" using e by (simp add: divide_simps)
  ultimately show ?thesis by (simp add: expit_def e_def)
qed

lemma expit_diff_bounds: "0 < expit_diff exp x \<and> expit_diff exp x \<le> 1 / 4"
proof -
  define s where "s = expit exp x"
  have s: "0 < s" "s < 1" using expit_exp_bounds[of x] by (simp_all add: s_def)
  have "s * (1 - s) = 1 / 4 - (s - 1 / 2)\<^sup>2" by (simp add: power2_eq_square algebra_simps)
  moreover have "0 \<le> (s - 1 / 2)\<^sup>2" by simp
  ultimately have "s * (1 - s) \<le> 1 / 4" by linarith
  moreover have "0 < s * (1 - s)" using s by simp
  ultimately show ?thesis by (simp add: expit_diff_def Let_def s_def)
qed



section \<open>The Newton loop\<close>

lemma assemble_dx_Nil [simp]: "assemble_dx [] f = 0" "assemble_dx vols [] = 0"
  by (simp_all add: assemble_dx_def)

lemma assemble_dx_Cons [simp]: "assemble_dx (v # vols) (x # f) = v * x + assemble_dx vols f"
  by (simp add: assemble_dx_def)




lemma newton_Suc:
  "newton ex vols h V c (Suc n) =
     (if newton_derivative ex vols h c = 0
      then (Inl (ValueError derivative_zero_message), [Print derivative_zero_warning], 1)
      else if \<bar>newton_step ex vols h V c\<bar> < 1 / 10 ^ 12
           then (Inr (c - newton_step ex vols h V c), [], 1)
           else (case newton ex vols h V (c - newton_step ex vols h V c) n of
                   (r, evs, its) \<Rightarrow> (r, evs, Suc its)))"
  by (simp add: newton_step_def newton_error_def newton_derivative_def Let_def)

lemmas [simp del] = newton.simps(2)

lemma newton_shape:
  "newton ex vols h V c n = (r, evs, its) \<Longrightarrow>
     its \<le> n \<and>
     (r = Inl (ValueError derivative_zero_message) \<and> evs = [Print derivative_zero_warning]
      \<or> (\<exists>c'. r = Inr c') \<and> (evs = [] \<or> evs = [Print projection_warning] \<and> its = n))"
proof (induction n arbitrary: c r evs its)
  case 0
  then show ?case by auto
next
  case (Suc n)
  show ?case
  proof (cases "newton_derivative ex vols h c = 0")
    case True
    with Suc.prems show ?thesis by (auto simp: newton_Suc)
  next
    case nz: False
    show ?thesis
    proof (cases "\<bar>newton_step ex vols h V c\<bar> < 1 / 10 ^ 12")
      case True
      with nz Suc.prems show ?thesis by (auto simp: newton_Suc)
    next
      case False
      obtain r' evs' its' where rec: "newton ex vols h V (c - newton_step ex vols h V c) n = (r', evs', its')"
        by (cases "newton ex vols h V (c - newton_step ex vols h V c) n") auto
      from Suc.prems nz False rec have eq: "r = r'" "evs = evs'" "its = Suc its'"
        by (auto simp: newton_Suc)
      from Suc.IH[OF rec] show ?thesis unfolding eq by auto
    qed
  qed
qed


lemma newton_from_iterate:
  "newton_reaches ex vols h V i \<Longrightarrow> i \<le> n \<Longrightarrow>
     newton ex vols h V 0 n =
       (case newton ex vols h V (newton_iterate ex vols h V i) (n - i) of
          (r, evs, its) \<Rightarrow> (r, evs, its + i))"
proof (induction i)
  case 0
  then show ?case by (simp split: prod.splits)
next
  case (Suc i)
  have reach: "newton_reaches ex vols h V i" using Suc.prems(1) by (simp add: newton_reaches_def)
  have here: "newton_derivative ex vols h (newton_iterate ex vols h V i) \<noteq> 0"
     "\<not> \<bar>newton_step ex vols h V (newton_iterate ex vols h V i)\<bar> < 1 / 10 ^ 12"
    using Suc.prems(1) by (simp_all add: newton_reaches_def)
  have n: "n - i = Suc (n - Suc i)" using Suc.prems(2) by simp
  show ?case
    using Suc.IH[OF reach] Suc.prems(2) here
    by (simp add: n newton_Suc split: prod.splits)
qed

subsection \<open>The projection in terms of the Newton iterates\<close>

lemma project_shape:
  "project ex vols h V = (r, evs, its) \<Longrightarrow>
     its \<le> max_iterations \<and> rows evs = 0 \<and>
     (r = Inl (ValueError derivative_zero_message) \<or> (\<exists>c. r = Inr (map (\<lambda>x. x + c) h)))"
proof -
  assume p: "project ex vols h V = (r, evs, its)"
  obtain r0 evs0 its0 where run: "newton ex vols h V 0 max_iterations = (r0, evs0, its0)"
    by (cases "newton ex vols h V 0 max_iterations") auto
  from newton_shape[OF run] p run show ?thesis
    by (auto simp: project_def rows_def)
qed

lemma project_raises:
  assumes "i < max_iterations"
    and "newton_reaches ex vols h V i"
    and "newton_derivative ex vols h (newton_iterate ex vols h V i) = 0"
  shows "project ex vols h V =
           (Inl (ValueError derivative_zero_message), [Print derivative_zero_warning], Suc i)"
proof -
  have n: "max_iterations - i = Suc (max_iterations - Suc i)" using assms(1) by simp
  have "newton ex vols h V 0 max_iterations =
          (Inl (ValueError derivative_zero_message), [Print derivative_zero_warning], Suc i)"
    using newton_from_iterate[OF assms(2), of max_iterations] assms(1,3)
    by (simp add: n newton_Suc)
  then show ?thesis by (simp add: project_def)
qed

lemma project_exhausts:
  assumes "newton_reaches ex vols h V max_iterations"
  shows "project ex vols h V =
           (Inr (map (\<lambda>x. x + newton_iterate ex vols h V max_iterations) h),
            [Print projection_warning], max_iterations)"
proof -
  have "newton ex vols h V 0 max_iterations =
          (Inr (newton_iterate ex vols h V max_iterations), [Print projection_warning], max_iterations)"
    using newton_from_iterate[OF assms, of max_iterations] by simp
  then show ?thesis by (simp add: project_def)
qed

subsection \<open>A run that does not settle in ten iterations\<close>

text \<open>On one cell of measure 1 with the target volume \<open>1 - 1 / 10 ^ 9\<close> the root lies near 20.7, and
  between 1 and 16 every Newton update moves the shifted value up by between 0.9 and 1.4:
  from \<open>3 / 2\<close> ten updates do not reach it. All values stay of moderate size.\<close>

lemma one_cell_derivative: "newton_derivative exp [1] [a] c \<noteq> 0"
  using expit_diff_bounds[of "a + c"] by (simp add: newton_derivative_def)

lemma one_cell_step:
  "newton_step exp [1] [a] V c = ((1 - V) * exp (a + c) - V) * (1 + 1 / exp (a + c))"
proof -
  define t where "t = exp (a + c)"
  have t: "0 < t" by (simp add: t_def)
  have e: "exp (- (a + c)) = 1 / t" by (simp only: t_def exp_minus inverse_eq_divide)
  have s: "expit exp (a + c) = t / (t + 1)"
    using t by (simp add: expit_def e divide_simps del: minus_add_distrib)
  have "newton_step exp [1] [a] V c
        = (t / (t + 1) - V) / (t / (t + 1) * (1 - t / (t + 1)))"
    by (simp add: newton_step_def newton_error_def newton_derivative_def expit_diff_def Let_def s)
  also have "\<dots> = ((1 - V) * t - V) * (1 + 1 / t)"
    using t by (simp add: divide_simps) (simp add: algebra_simps)
  finally show ?thesis by (simp only: t_def)
qed


lemma exp_window:
  assumes "1 \<le> (x::real)" and "x \<le> 16"
  shows "5 / 2 \<le> exp x" and "exp x \<le> 43046721"
proof -
  have "1 + 1 + 1\<^sup>2 / 2 \<le> exp (1::real)" by (intro exp_lower_Taylor_quadratic) simp
  then have "5 / 2 \<le> exp (1::real)" by simp
  also have "\<dots> \<le> exp x" using assms(1) by simp
  finally show "5 / 2 \<le> exp x" .
  have "exp x \<le> exp (16::real)" using assms(2) by simp
  also have "exp (16::real) = exp 1 ^ 16" using exp_of_nat_mult[of 16 "1::real"] by simp
  also have "\<dots> \<le> 3 ^ 16" by (intro power_mono exp_le) simp
  finally show "exp x \<le> 43046721" by simp
qed

lemma slow_step:
  assumes "1 \<le> a + c" and "a + c \<le> 16"
  shows "- (7 / 5) \<le> newton_step exp [1] [a] (1 - 1 / 10 ^ 9) c"
    and "newton_step exp [1] [a] (1 - 1 / 10 ^ 9) c \<le> - (9 / 10)"
proof -
  define t where "t = exp (a + c)"
  define u where "u = (1 - 1 / 10 ^ 9) - (1 / 10 ^ 9) * t"
  define w where "w = 1 + 1 / t"
  have t: "5 / 2 \<le> t" "t \<le> 43046721" using exp_window[OF assms] by (simp_all add: t_def)
  have u: "19 / 20 \<le> u" "u \<le> 1" using t by (simp_all add: u_def)
  have "1 / t \<le> 1 / (5 / 2)" using t(1) by (intro divide_left_mono) simp_all
  then have w: "1 \<le> w" "w \<le> 7 / 5" using t(1) by (simp_all add: w_def)
  have "(1 - (1 - 1 / 10 ^ 9)) * t - (1 - 1 / 10 ^ 9) = - u" by (simp add: u_def)
  then have eq: "newton_step exp [1] [a] (1 - 1 / 10 ^ 9) c = - (u * w)"
    unfolding one_cell_step t_def[symmetric] w_def[symmetric] by simp
  have "u * w \<le> 1 * (7 / 5)" using u w by (intro mult_mono) simp_all
  then show "- (7 / 5) \<le> newton_step exp [1] [a] (1 - 1 / 10 ^ 9) c" unfolding eq by linarith
  have "(19 / 20) * 1 \<le> u * w" using u w by (intro mult_mono) simp_all
  then show "newton_step exp [1] [a] (1 - 1 / 10 ^ 9) c \<le> - (9 / 10)" unfolding eq by linarith
qed

lemma slow_iterates:
  "j \<le> 10 \<Longrightarrow>
     1 \<le> 3 / 2 + newton_iterate exp [1] [3 / 2] (1 - 1 / 10 ^ 9) j
     \<and> 3 / 2 + newton_iterate exp [1] [3 / 2] (1 - 1 / 10 ^ 9) j \<le> 3 / 2 + 7 / 5 * real j"
proof (induction j)
  case 0
  show ?case by simp
next
  case (Suc j)
  define cj where "cj = newton_iterate exp [1] [3 / 2] (1 - 1 / 10 ^ 9) j"
  define sj where "sj = newton_step exp [1] [3 / 2] (1 - 1 / 10 ^ 9) cj"
  define rj where "rj = real j"
  from Suc have ih: "1 \<le> 3 / 2 + cj" "3 / 2 + cj \<le> 3 / 2 + 7 / 5 * rj" and j: "j < 10"
    by (simp_all add: cj_def rj_def)
  have "rj \<le> 9" using j by (simp add: rj_def)
  with ih(2) have up: "3 / 2 + cj \<le> 16" by linarith
  from slow_step[OF ih(1) up] have s: "- (7 / 5) \<le> sj" "sj \<le> - (9 / 10)"
    by (simp_all only: sj_def)
  have next_c: "newton_iterate exp [1] [3 / 2] (1 - 1 / 10 ^ 9) (Suc j) = cj - sj"
    by (simp add: cj_def sj_def)
  have next_r: "real (Suc j) = rj + 1" by (simp add: rj_def)
  have "1 \<le> 3 / 2 + (cj - sj)" using s ih by linarith
  moreover have "7 / 5 * (rj + 1) = 7 / 5 * rj + 7 / 5" by (simp add: algebra_simps)
  then have "3 / 2 + (cj - sj) \<le> 3 / 2 + 7 / 5 * (rj + 1)" using s ih by linarith
  ultimately show ?case unfolding next_c next_r by blast
qed

lemma slow_reaches: "newton_reaches exp [1] [3 / 2] (1 - 1 / 10 ^ 9) max_iterations"
  unfolding newton_reaches_def max_iterations_def
proof (intro allI impI conjI)
  fix j :: nat assume j: "j < 10"
  let ?c = "newton_iterate exp [1] [3 / 2] (1 - 1 / 10 ^ 9) j"
  show "newton_derivative exp [1] [3 / 2] ?c \<noteq> 0" by (rule one_cell_derivative)
  from slow_iterates[of j] j have b: "1 \<le> 3 / 2 + ?c" "3 / 2 + ?c \<le> 3 / 2 + 7 / 5 * real j"
    by simp_all
  have "real j \<le> 9" using j by simp
  with b(2) have up: "3 / 2 + ?c \<le> 16" by linarith
  from slow_step(2)[OF b(1) up]
  show "\<not> \<bar>newton_step exp [1] [3 / 2] (1 - 1 / 10 ^ 9) ?c\<bar> < 1 / 10 ^ 12" by simp
qed



subsection \<open>Runs by evaluation\<close>

lemma project_at_root: "project exp [1] [0] (1 / 2) = (Inr [0], [], 1)"
  by (simp add: project_def max_iterations_def numeral_eq_Suc newton_Suc newton_derivative_def
        newton_step_def newton_error_def expit_diff_def expit_def)

lemma project_saturated:
  "project exp_underflow [1] [800] (1 / 2) =
     (Inl (ValueError derivative_zero_message), [Print derivative_zero_warning], 1)"
  by (simp add: project_def max_iterations_def numeral_eq_Suc newton_Suc newton_derivative_def
        expit_diff_def expit_def exp_underflow_def)

section \<open>The parser\<close>

lemma getitem_Inr [simp]: "(getitem key v = Inr x) = (v = Some x)"
  by (simp add: getitem_def split: option.splits)









section \<open>The loop of the solver\<close>

declare solve_loop.simps [simp del]

lemma announce_fields [simp]:
  "problem (announce k s l) = problem s" "mesh (announce k s l) = mesh s"
  "volume (announce k s l) = volume s" "rho (announce k s l) = rho s"
  by (simp_all add: announce_def save_rho_def Let_def)

lemma rows_append [simp]: "rows (xs @ ys) = rows xs + rows ys"
  by (simp add: rows_def)

lemma rows_simps [simp]:
  "rows [] = 0" "rows (Print m # evs) = rows evs" "rows (Save_rho r obj k # evs) = rows evs"
  "rows (Print_values k obj od d mg # evs) = Suc (rows evs)"
  by (simp_all add: rows_def)

lemma rows_announce [simp]: "rows (out (announce k s l)) = Suc (rows (out s))"
  by (simp add: announce_def save_rho_def Let_def print_values_def)

lemma step_eq:
  "step ext s pp ss =
     (case project (np_exp ext) (mesh s)
             (map2 (\<lambda>x g. x - real_of_int ss * g) pp (fst (calculate_objective_gradient ext (problem s))))
             (volume s) of
        (r, evs, its) \<Rightarrow>
          (r, s\<lparr>problem := snd (calculate_objective_gradient ext (problem s)), out := out s @ evs\<rparr>))"
  by (simp add: step_def Let_def split: prod.splits)

lemma step_announce:
  "step ext (announce k s l) (psi l) (step_size k) =
     (case project (np_exp ext) (mesh s) (half_step_of ext k s l) (volume s) of
        (r, evs, its) \<Rightarrow>
          (r, (announce k s l)\<lparr>problem := snd (calculate_objective_gradient ext (problem s)),
                                out := out (announce k s l) @ evs\<rparr>))"
  by (simp add: step_eq half_step_of_def)

lemma step_fields:
  "step ext s pp ss = (r, s') \<Longrightarrow> mesh s' = mesh s \<and> volume s' = volume s \<and> rho s' = rho s"
  by (auto simp: step_eq split: prod.splits)

lemma iteration_raise:
  assumes "step ext (announce k s l) (psi l) (step_size k) = (Inl e, s3)"
  shows "iteration ext k (s, l) = (Inl e, s3, l\<lparr>previous_psi := Some (psi l)\<rparr>)"
  using assms by (simp add: iteration_def Let_def)

lemma iteration_pass:
  assumes "step ext (announce k s l) (psi l) (step_size k) = (Inr psi', s3)"
    and "calculate_objective ext (problem s3) (map (expit (np_exp ext)) psi') = (obj, p')"
  shows "iteration ext k (s, l) =
     (let s5 = s3\<lparr>rho := map (expit (np_exp ext)) psi', problem := p'\<rparr>;
          l2 = l\<lparr>previous_psi := Some (psi l), psi := psi', objective := obj,
                 objective_difference := Some (objective l - obj)\<rparr>;
          d = density_delta (mesh s) (map (expit (np_exp ext)) psi') (map (expit (np_exp ext)) (psi l))
      in if objective l - obj < 0
         then (Inr (Some DIVERGED),
               s5\<lparr>out := out s3 @ [print_values (k + 1) obj (Some (objective l - obj)) (difference l),
                                     Print (exit_message DIVERGED)]\<rparr>,
               l2)
         else if d < tolerance k
         then (Inr (Some CONVERGED),
               s5\<lparr>out := out s3 @ [print_values (k + 1) obj (Some (objective l - obj)) (Finite d),
                                     Print (exit_message CONVERGED)]\<rparr>,
               l2\<lparr>difference := Finite d\<rparr>)
         else (Inr None, s5, l2\<lparr>difference := Finite d\<rparr>))"
proof -
  have m: "mesh s3 = mesh s" using step_fields[OF assms(1)] by simp
  show ?thesis using assms by (simp add: iteration_def Let_def m)
qed

lemma solve_loop_step:
  "k < 500 \<Longrightarrow> solve_loop ext k st =
      (case iteration ext k st of
              (Inl e, st') \<Rightarrow> (Inl e, st')
            | (Inr (Some oc), st') \<Rightarrow> (Inr (oc, k), st')
            | (Inr None, st') \<Rightarrow> solve_loop ext (k + 1) st')"
  by (subst solve_loop.simps) simp

lemma solve_loop_done:
  "\<not> k < 500 \<Longrightarrow> solve_loop ext k (s, l) =
      (Inr (EXHAUSTED, k - 1),
       s\<lparr>out := out s @
          [print_values k (objective l) (objective_difference l) (difference l),
           Print (exit_message EXHAUSTED)]\<rparr>, l)"
  by (subst solve_loop.simps) simp

lemma reachable_loop:
  "reachable ext s0 k st \<Longrightarrow> solve_loop ext 0 (solve_start ext s0) = solve_loop ext k st"
proof (induction rule: reachable.induct)
  case start
  show ?case by simp
next
  case (pass k st st')
  then show ?case by (simp add: solve_loop_step)
qed

lemma stub_fields [simp]:
  "np_exp (stub ex a g) = ex"
  "calculate_objective (stub ex a g) p r = (a * real p, Suc p)"
  "calculate_objective_gradient (stub ex a g) p = ([g], p)"
  by (simp_all add: stub_def)

lemma unit_square_fields [simp]:
  "mesh unit_square = [1]" "volume unit_square = 1 / 2" "rho unit_square = [1 / 2]"
  "problem unit_square = 0" "out unit_square = []"
  by (simp_all add: unit_square_def)

lemma start_unit_square:
  "solve_start (stub ex a g) unit_square =
     (unit_square\<lparr>problem := 1, out := map Print header\<rparr>,
      \<lparr>psi = [0], previous_psi = None, difference = Infinity, objective = 0,
       objective_difference = None\<rparr>)"
  by (simp add: solve_start_def logit_def)

lemma half_step_unit_square:
  "half_step_of (stub ex a g) 0 (fst (solve_start (stub ex a g) unit_square))
      (snd (solve_start (stub ex a g) unit_square)) = [- 25 * g]"
  by (simp add: start_unit_square half_step_of_def step_size_def)

lemma solve_reachable:
  "reachable ext s0 k st \<Longrightarrow> solve ext s0 = solve_finish (solve_loop ext k st)"
  by (simp add: solve_def reachable_loop)

lemma iteration_cases:
  obtains (raise) e s3 where
      "step ext (announce k s l) (psi l) (step_size k) = (Inl e, s3)"
      "iteration ext k (s, l) = (Inl e, s3, l\<lparr>previous_psi := Some (psi l)\<rparr>)"
  | (pass) psi' s3 obj p' where
      "step ext (announce k s l) (psi l) (step_size k) = (Inr psi', s3)"
      "calculate_objective ext (problem s3) (map (expit (np_exp ext)) psi') = (obj, p')"
proof (cases "step ext (announce k s l) (psi l) (step_size k)")
  case (Pair r s3)
  show ?thesis
  proof (cases r)
    case (Inl e)
    with Pair raise iteration_raise show ?thesis by blast
  next
    case (Inr psi')
    obtain obj p' where "calculate_objective ext (problem s3) (map (expit (np_exp ext)) psi') = (obj, p')"
      by (cases "calculate_objective ext (problem s3) (map (expit (np_exp ext)) psi')") auto
    with Pair Inr pass show ?thesis by blast
  qed
qed

lemma step_results:
  assumes "step ext (announce k s l) (psi l) (step_size k) = (r, s3)"
  shows "rows (out s3) = Suc (rows (out s)) \<and>
         (r = Inl (ValueError derivative_zero_message)
          \<or> (\<exists>c. r = Inr (map (\<lambda>x. x + c) (half_step_of ext k s l))))"
proof -
  obtain r0 evs its where p: "project (np_exp ext) (mesh s) (half_step_of ext k s l) (volume s) = (r0, evs, its)"
    by (cases "project (np_exp ext) (mesh s) (half_step_of ext k s l) (volume s)") auto
  from project_shape[OF p] assms p show ?thesis
    by (auto simp: step_announce)
qed

lemma iteration_results:
  assumes "iteration ext k (s, l) = (r, s', l')"
  shows "(r = Inl (ValueError derivative_zero_message) \<and> rows (out s') = rows (out s) + 1)
       \<or> (r = Inr None \<and> rows (out s') = rows (out s) + 1)
       \<or> (\<exists>evs oc. r = Inr (Some oc) \<and> oc \<noteq> EXHAUSTED \<and> rows (out s') = rows (out s) + 2
              \<and> out s' = evs @ [Print (exit_message oc)])"
proof (cases rule: iteration_cases[of ext k s l])
  case (raise e s3)
  from step_results[OF raise(1)] raise(2) assms show ?thesis by auto
next
  case (pass psi' s3 obj p')
  from step_results[OF pass(1)] have "rows (out s3) = Suc (rows (out s))" by simp
  with assms show ?thesis
    unfolding iteration_pass[OF pass] Let_def
    by (auto simp: print_values_def split: if_splits)
qed

lemma solve_loop_results:
  "k \<le> 500 \<Longrightarrow> solve_loop ext k (s, l) = (r, s', l') \<Longrightarrow>
     rows (out s') \<le> rows (out s) + nat (500 - k) + 1 \<and>
     (r = Inl (ValueError derivative_zero_message)
      \<or> (\<exists>oc k' evs. r = Inr (oc, k') \<and> out s' = evs @ [Print (exit_message oc)] \<and>
            (oc = EXHAUSTED \<and> k' = 499 \<or> oc \<noteq> EXHAUSTED \<and> k \<le> k' \<and> k' < 500)))"
proof (induction "nat (500 - k)" arbitrary: k s l)
  case 0
  then have k: "\<not> k < 500" "k = 500" by simp_all
  from 0(3) show ?case unfolding solve_loop_done[OF k(1)]
    by (auto simp: k(2) print_values_def)
next
  case (Suc n)
  then have k: "k < 500" by simp
  obtain r1 s1 l1 where it: "iteration ext k (s, l) = (r1, s1, l1)"
    by (cases "iteration ext k (s, l)") auto
  note res = iteration_results[OF it]
  show ?case
  proof (cases "r1 = Inr None")
    case True
    have n: "n = nat (500 - (k + 1))" "k + 1 \<le> 500" using Suc(2) k by simp_all
    from Suc(4) have rec: "solve_loop ext (k + 1) (s1, l1) = (r, s', l')"
      by (simp add: solve_loop_step[OF k] it True)
    from Suc(1)[OF n rec] res True k show ?thesis by auto
  next
    case False
    with res consider "r1 = Inl (ValueError derivative_zero_message)" "rows (out s1) = rows (out s) + 1"
      | evs oc where "r1 = Inr (Some oc)" "oc \<noteq> EXHAUSTED" "rows (out s1) = rows (out s) + 2"
          "out s1 = evs @ [Print (exit_message oc)]"
      by blast
    then show ?thesis
    proof cases
      case 1
      with Suc(4) k show ?thesis by (simp add: solve_loop_step it)
    next
      case 2
      from Suc(4) have eq: "r = Inr (oc, k)" "s' = s1" "l' = l1"
        by (simp_all add: solve_loop_step[OF k] it 2(1))
      have "rows (out s') \<le> rows (out s) + nat (500 - k) + 1"
        using 2(3) k by (simp add: eq)
      moreover have "\<exists>oc' k' evs'. r = Inr (oc', k') \<and> out s' = evs' @ [Print (exit_message oc')] \<and>
            (oc' = EXHAUSTED \<and> k' = 499 \<or> oc' \<noteq> EXHAUSTED \<and> k \<le> k' \<and> k' < 500)"
        using 2(2,4) k eq by blast
      ultimately show ?thesis by blast
    qed
  qed
qed

lemma solve_raise:
  assumes "fst (iteration ext 0 (solve_start ext s)) = Inl e"
  shows "fst (solve ext s) = Inl e"
proof -
  obtain r s1 l1 where it: "iteration ext 0 (solve_start ext s) = (r, s1, l1)"
    by (cases "iteration ext 0 (solve_start ext s)") auto
  with assms have "solve_loop ext 0 (solve_start ext s) = (Inl e, s1, l1)"
    by (simp add: solve_loop_step)
  then show ?thesis by (simp add: solve_def solve_finish_def)
qed

lemma saturated_run:
  "fst (solve (stub exp_underflow 0 (- 32)) unit_square) = Inl (ValueError derivative_zero_message)"
proof -
  let ?ext = "stub exp_underflow 0 (- 32)"
  have "fst (iteration ?ext 0 (solve_start ?ext unit_square)) = Inl (ValueError derivative_zero_message)"
    by (simp add: start_unit_square iteration_def Let_def step_eq step_size_def project_saturated)
  then show ?thesis by (rule solve_raise)
qed

lemma flat_step:
  "fst (step (stub exp a 0) (announce 0 (fst (solve_start (stub exp a 0) unit_square))
          (snd (solve_start (stub exp a 0) unit_square)))
        (psi (snd (solve_start (stub exp a 0) unit_square))) (step_size 0)) = Inr [0]"
  by (simp add: start_unit_square step_eq step_size_def project_at_root)

lemma flat_problem:
  "problem (snd (step (stub exp a 0) (announce 0 (fst (solve_start (stub exp a 0) unit_square))
          (snd (solve_start (stub exp a 0) unit_square)))
        (psi (snd (solve_start (stub exp a 0) unit_square))) (step_size 0))) = 1"
  by (simp add: start_unit_square step_eq step_size_def project_at_root)

lemma stub_mesh [simp]:
  "RectangleMesh (stub ex a g) w h nx ny = [w * h]"
  "problem_init (stub ex a g) p m pa extra = p"
  by (simp_all add: stub_def)











subsection \<open>A run in which the exponential underflows\<close>

lemma tilted_fields [simp]:
  "np_exp tilted = exp_underflow"
  "RectangleMesh tilted w h nx ny = [1, 1, 1]"
  "problem_init tilted p m pa extra = p"
  "calculate_objective tilted p r = (0, Suc p)"
  "calculate_objective_gradient tilted p = ([32, 0, - 32], p)"
  by (simp_all add: tilted_def stub_cells_def)

lemma three_cells_fields [simp]:
  "mesh three_cells = [1, 1, 1]" "volume three_cells = 3 / 2"
  "rho three_cells = [1 / 2, 1 / 2, 1 / 2]" "problem three_cells = 0" "out three_cells = []"
  by (simp_all add: three_cells_def)















section \<open>Volume feasibility of the projection\<close>




section \<open>The stopping rule\<close>



section \<open>Divergence\<close>

text \<open>
  Claim C3. When the objective recomputed after the step of iteration \<open>k\<close> exceeds the previous
  one, the iteration ends as \<open>DIVERGED\<close> and raises nothing; \<^verbatim>\<open>solve\<close> then prints the row and
  the exit message and writes exactly one more snapshot, of the current density and objective
  under the index \<open>k + 1\<close>. This holds for the whole run whenever the loop reaches the
  iteration.
\<close>

theorem divergence_is_clean_exit:
  assumes "step ext (announce k s l) (psi l) (step_size k) = (Inr psi', s3)"
    and "calculate_objective ext (problem s3) (map (expit (np_exp ext)) psi') = (obj, p')"
    and "objective l - obj < 0"
    and "k < 500"
  shows "fst (iteration ext k (s, l)) = Inr (Some DIVERGED)
    \<and> (\<exists>s' l'. solve_finish (solve_loop ext k (s, l)) = (Inr DIVERGED, s', l')
          \<and> rho s' = map (expit (np_exp ext)) psi' \<and> objective l' = obj
          \<and> out s' = out s3 @
              [print_values (k + 1) obj (Some (objective l - obj)) (difference l),
               Print (exit_message DIVERGED),
               Save_rho (map (expit (np_exp ext)) psi') obj (k + 1)])
    \<and> (reachable ext s0 k (s, l) \<longrightarrow>
          fst (solve ext s0) = Inr DIVERGED
          \<and> last (out (fst (snd (solve ext s0)))) = Save_rho (map (expit (np_exp ext)) psi') obj (k + 1))"
proof -
  let ?s' = "s3\<lparr>rho := map (expit (np_exp ext)) psi', problem := p',
                 out := out s3 @ [print_values (k + 1) obj (Some (objective l - obj)) (difference l),
                                  Print (exit_message DIVERGED)]\<rparr>"
  let ?l' = "l\<lparr>previous_psi := Some (psi l), psi := psi', objective := obj,
                objective_difference := Some (objective l - obj)\<rparr>"
  have it: "iteration ext k (s, l) = (Inr (Some DIVERGED), ?s', ?l')"
    unfolding iteration_pass[OF assms(1,2)] using assms(3) by (simp add: Let_def)
  have fin: "solve_finish (solve_loop ext k (s, l)) =
               (Inr DIVERGED, save_rho ?s' (rho ?s') (objective ?l') (k + 1), ?l')"
    by (simp add: solve_loop_step[OF assms(4)] it solve_finish_def)
  have a: "fst (iteration ext k (s, l)) = Inr (Some DIVERGED)" by (simp add: it)
  have b: "\<exists>s' l'. solve_finish (solve_loop ext k (s, l)) = (Inr DIVERGED, s', l')
          \<and> rho s' = map (expit (np_exp ext)) psi' \<and> objective l' = obj
          \<and> out s' = out s3 @
              [print_values (k + 1) obj (Some (objective l - obj)) (difference l),
               Print (exit_message DIVERGED),
               Save_rho (map (expit (np_exp ext)) psi') obj (k + 1)]"
    unfolding fin by (simp add: save_rho_def)
  have c: "reachable ext s0 k (s, l) \<longrightarrow>
          fst (solve ext s0) = Inr DIVERGED
          \<and> last (out (fst (snd (solve ext s0)))) = Save_rho (map (expit (np_exp ext)) psi') obj (k + 1)"
  proof
    assume "reachable ext s0 k (s, l)"
    then have "solve ext s0 = solve_finish (solve_loop ext k (s, l))" by (rule solve_reachable)
    then show "fst (solve ext s0) = Inr DIVERGED
          \<and> last (out (fst (snd (solve ext s0)))) = Save_rho (map (expit (np_exp ext)) psi') obj (k + 1)"
      by (simp add: fin save_rho_def)
  qed
  from a b c show ?thesis by blast
qed

text \<open>
  The theorem on the unit square with an objective that grows by 1 with every evaluation: the
  run diverges in iteration 0 and its last output is the snapshot of \<open>[1 / 2]\<close> with
  objective 1 under index 1.
\<close>

theorem divergence_is_clean_exit_witness:
  "fst (solve (stub exp 1 0) unit_square) = Inr DIVERGED
   \<and> last (out (fst (snd (solve (stub exp 1 0) unit_square)))) = Save_rho [1 / 2] 1 1"
proof -
  let ?ext = "stub exp 1 0"
  let ?s = "fst (solve_start ?ext unit_square)"
  let ?l = "snd (solve_start ?ext unit_square)"
  let ?st = "step ?ext (announce 0 ?s ?l) (psi ?l) (step_size 0)"
  have 1: "?st = (Inr [0], snd ?st)"
    using flat_step[of 1] by (simp add: prod_eq_iff)
  have 2: "calculate_objective ?ext (problem (snd ?st)) (map (expit (np_exp ?ext)) [0]) = (1, 2)"
    by (simp add: flat_problem)
  have 3: "objective ?l - 1 < 0" by (simp add: start_unit_square)
  have 4: "(0::int) < 500" by simp
  have 5: "reachable ?ext unit_square 0 (?s, ?l)"
    using reachable.start[of ?ext unit_square] by simp
  from divergence_is_clean_exit[OF 1 2 3 4, of unit_square] 5 show ?thesis
    by (simp add: expit_def)
qed

section \<open>A derivative that is zero\<close>

text \<open>
  Claim C4. If the Newton loop of the projection reaches its \<open>i\<close>-th body (\<open>i < 10\<close>) and the
  integrated derivative is exactly zero there, the projection prints its warning and raises
  \<^verbatim>\<open>ValueError\<close> in that body: no further body runs and no field is returned. Inside the driver
  the exception leaves \<^verbatim>\<open>step\<close>, the iteration (\<open>psi\<close> and \<open>rho\<close> keep their values), the loop
  and \<^verbatim>\<open>solve\<close>, which writes no final snapshot.
\<close>

theorem degenerate_derivative_aborts:
  assumes "i < max_iterations"
    and "newton_reaches ex vols h V i"
    and "newton_derivative ex vols h (newton_iterate ex vols h V i) = 0"
  shows "project ex vols h V =
           (Inl (ValueError derivative_zero_message), [Print derivative_zero_warning], Suc i)
    \<and> (np_exp ext = ex \<and> mesh s = vols \<and> volume s = V \<and> half_step_of ext k s l = h \<longrightarrow>
         fst (step ext (announce k s l) (psi l) (step_size k)) = Inl (ValueError derivative_zero_message)
       \<and> fst (iteration ext k (s, l)) = Inl (ValueError derivative_zero_message)
       \<and> psi (snd (snd (iteration ext k (s, l)))) = psi l
       \<and> rho (fst (snd (iteration ext k (s, l)))) = rho s
       \<and> (k < 500 \<longrightarrow>
            solve_finish (solve_loop ext k (s, l)) =
              (Inl (ValueError derivative_zero_message), snd (iteration ext k (s, l))))
       \<and> (k < 500 \<and> reachable ext s0 k (s, l) \<longrightarrow>
            fst (solve ext s0) = Inl (ValueError derivative_zero_message)))"
proof (intro conjI impI)
  show p: "project ex vols h V =
           (Inl (ValueError derivative_zero_message), [Print derivative_zero_warning], Suc i)"
    by (rule project_raises[OF assms])
  assume eq: "np_exp ext = ex \<and> mesh s = vols \<and> volume s = V \<and> half_step_of ext k s l = h"
  let ?e = "ValueError derivative_zero_message"
  let ?s3 = "(announce k s l)\<lparr>problem := snd (calculate_objective_gradient ext (problem s)),
               out := out (announce k s l) @ [Print derivative_zero_warning]\<rparr>"
  have st: "step ext (announce k s l) (psi l) (step_size k) = (Inl ?e, ?s3)"
    using eq p by (simp add: step_announce)
  have it: "iteration ext k (s, l) = (Inl ?e, ?s3, l\<lparr>previous_psi := Some (psi l)\<rparr>)"
    by (rule iteration_raise[OF st])
  show "fst (step ext (announce k s l) (psi l) (step_size k)) = Inl ?e" by (simp add: st)
  show "fst (iteration ext k (s, l)) = Inl ?e" by (simp add: it)
  show "psi (snd (snd (iteration ext k (s, l)))) = psi l" by (simp add: it)
  show "rho (fst (snd (iteration ext k (s, l)))) = rho s" by (simp add: it)
  {
    assume k: "k < 500"
    show "solve_finish (solve_loop ext k (s, l)) = (Inl ?e, snd (iteration ext k (s, l)))"
      by (simp add: solve_loop_step[OF k] it solve_finish_def)
  }
  {
    assume r: "k < 500 \<and> reachable ext s0 k (s, l)"
    then have "solve ext s0 = solve_finish (solve_loop ext k (s, l))"
      by (simp add: solve_reachable)
    with r show "fst (solve ext s0) = Inl ?e"
      by (simp add: solve_loop_step it solve_finish_def)
  }
qed

text \<open>
  The theorem with an exponential that underflows, on the unit square with gradient \<open>-32\<close>:
  the first half step is 800, \<open>expit\<close> is 1 there, its derivative 0, and \<^verbatim>\<open>solve\<close> raises.
\<close>

theorem degenerate_derivative_aborts_witness:
  "project exp_underflow [1] [800] (1 / 2) =
     (Inl (ValueError derivative_zero_message), [Print derivative_zero_warning], 1)
   \<and> fst (solve (stub exp_underflow 0 (- 32)) unit_square) = Inl (ValueError derivative_zero_message)"
proof -
  let ?ext = "stub exp_underflow 0 (- 32)"
  let ?s = "fst (solve_start ?ext unit_square)"
  let ?l = "snd (solve_start ?ext unit_square)"
  have 1: "0 < max_iterations" by (simp add: max_iterations_def)
  have 2: "newton_reaches exp_underflow [1] [800] (1 / 2) 0" by (simp add: newton_reaches_def)
  have 3: "newton_derivative exp_underflow [1] [800] (newton_iterate exp_underflow [1] [800] (1 / 2) 0) = 0"
    by (simp add: newton_derivative_def expit_diff_def expit_def exp_underflow_def)
  have 4: "np_exp ?ext = exp_underflow \<and> mesh ?s = [1] \<and> volume ?s = 1 / 2
           \<and> half_step_of ?ext 0 ?s ?l = [800]"
    by (simp add: half_step_unit_square) (simp add: start_unit_square)
  have 5: "reachable ?ext unit_square 0 (?s, ?l)"
    using reachable.start[of ?ext unit_square] by simp
  from degenerate_derivative_aborts[OF 1 2 3, of ?ext ?s 0 ?l unit_square] 4 5
  show ?thesis by simp
qed

section \<open>A Newton loop that uses up its iterations\<close>

text \<open>
  Claim C5. If the Newton loop runs its ten bodies, none with a zero derivative and none with
  an update below \<open>1e-12\<close> in magnitude, the projection returns \<open>h\<close> plus the shift after the
  tenth update and prints the warning only. \<^verbatim>\<open>step\<close> returns that field, and the iteration goes
  on with it: it raises nothing, \<open>psi\<close> is the returned field and \<open>rho\<close> its image under \<open>expit\<close>.
\<close>

theorem newton_cap_shortfall_nonfatal:
  assumes "newton_reaches ex vols h V max_iterations"
  shows "project ex vols h V =
           (Inr (map (\<lambda>x. x + newton_iterate ex vols h V max_iterations) h),
            [Print projection_warning], max_iterations)
    \<and> (np_exp ext = ex \<and> mesh s = vols \<and> volume s = V \<and> half_step_of ext k s l = h \<longrightarrow>
         step ext (announce k s l) (psi l) (step_size k) =
           (Inr (map (\<lambda>x. x + newton_iterate ex vols h V max_iterations) h),
            (announce k s l)\<lparr>problem := snd (calculate_objective_gradient ext (problem s)),
                               out := out (announce k s l) @ [Print projection_warning]\<rparr>)
       \<and> \<not> isl (fst (iteration ext k (s, l)))
       \<and> psi (snd (snd (iteration ext k (s, l)))) =
           map (\<lambda>x. x + newton_iterate ex vols h V max_iterations) h
       \<and> rho (fst (snd (iteration ext k (s, l)))) =
           map (expit ex) (map (\<lambda>x. x + newton_iterate ex vols h V max_iterations) h))"
proof (intro conjI impI)
  let ?psi = "map (\<lambda>x. x + newton_iterate ex vols h V max_iterations) h"
  let ?s3 = "(announce k s l)\<lparr>problem := snd (calculate_objective_gradient ext (problem s)),
               out := out (announce k s l) @ [Print projection_warning]\<rparr>"
  show p: "project ex vols h V = (Inr ?psi, [Print projection_warning], max_iterations)"
    by (rule project_exhausts[OF assms])
  assume eq: "np_exp ext = ex \<and> mesh s = vols \<and> volume s = V \<and> half_step_of ext k s l = h"
  show st: "step ext (announce k s l) (psi l) (step_size k) = (Inr ?psi, ?s3)"
    using eq p by (simp add: step_announce)
  obtain obj p' where ob: "calculate_objective ext (problem ?s3) (map (expit (np_exp ext)) ?psi) = (obj, p')"
    by (cases "calculate_objective ext (problem ?s3) (map (expit (np_exp ext)) ?psi)") auto
  note it = iteration_pass[OF st ob]
  show "\<not> isl (fst (iteration ext k (s, l)))" unfolding it by (simp add: Let_def)
  show "psi (snd (snd (iteration ext k (s, l)))) = ?psi" unfolding it by (simp add: Let_def)
  show "rho (fst (snd (iteration ext k (s, l)))) = map (expit ex) ?psi"
    unfolding it using eq by (simp add: Let_def)
qed

text \<open>
  The theorem on the square of volume fraction \<open>1 - 1 / 10 ^ 9\<close>, with the gradient that makes
  the first half step \<open>3 / 2\<close>: the ten Newton updates are of about 1 each and do not reach
  the root.
\<close>

theorem newton_cap_shortfall_nonfatal_witness:
  "fst (snd (project exp [1] [3 / 2] (1 - 1 / 10 ^ 9))) = [Print projection_warning]
   \<and> \<not> isl (fst (project exp [1] [3 / 2] (1 - 1 / 10 ^ 9)))
   \<and> \<not> isl (fst (iteration (stub exp 0 ((logit (1 - 1 / 10 ^ 9) - 3 / 2) / 25)) 0
              (solve_start (stub exp 0 ((logit (1 - 1 / 10 ^ 9) - 3 / 2) / 25)) nearly_full)))"
proof -
  let ?ext = "stub exp 0 ((logit (1 - 1 / 10 ^ 9) - 3 / 2) / 25)"
  let ?s = "fst (solve_start ?ext nearly_full)"
  let ?l = "snd (solve_start ?ext nearly_full)"
  have 2: "np_exp ?ext = exp \<and> mesh ?s = [1] \<and> volume ?s = 1 - 1 / 10 ^ 9
           \<and> half_step_of ?ext 0 ?s ?l = [3 / 2]"
    by (simp add: solve_start_def nearly_full_def half_step_of_def step_size_def
        diff_divide_distrib)
  from newton_cap_shortfall_nonfatal[OF slow_reaches, of ?ext ?s 0 ?l] 2
  show ?thesis by simp
qed

section \<open>Termination\<close>

text \<open>
  Claim C6, as stated, fails: a run need not reach \<open>CONVERGED\<close>, \<open>DIVERGED\<close> or \<open>EXHAUSTED\<close>.
  With an exponential that underflows and gradient \<open>-32\<close> on the unit square the projection of
  iteration 0 raises, and \<^verbatim>\<open>solve\<close> ends with the \<^verbatim>\<open>ValueError\<close>.
\<close>

theorem solve_can_abort:
  "fst (solve (stub exp_underflow 0 (- 32)) unit_square) = Inl (ValueError derivative_zero_message)
   \<and> fst (solve (stub exp_underflow 0 (- 32)) unit_square) \<notin> {Inr CONVERGED, Inr DIVERGED, Inr EXHAUSTED}"
  by (simp add: saturated_run)

text \<open>
  Claim C6, amended. Every run of \<^verbatim>\<open>solve\<close> ends: either with the degenerate-derivative
  \<^verbatim>\<open>ValueError\<close> of the projection, or with one of the three outcomes in an iteration
  \<open>k < 500\<close>, its exit message printed and followed by the final snapshot under index
  \<open>k + 1\<close>. It prints at most 501 progress rows, one for each iteration and one at the exit.
  Every projection runs at most 10 Newton bodies.
\<close>

theorem solve_terminates:
  "(\<exists>s' l'. solve ext s = (Inl (ValueError derivative_zero_message), s', l')
      \<or> (\<exists>oc k evs. solve ext s = (Inr oc, s', l') \<and> 0 \<le> k \<and> k < 500 \<and>
            out s' = evs @ [Print (exit_message oc), Save_rho (rho s') (objective l') (k + 1)]))
   \<and> rows (out (fst (snd (solve ext s)))) \<le> rows (out s) + 501
   \<and> snd (snd (project ex vols h V)) \<le> 10"
proof -
  obtain s1 l1 where st: "solve_start ext s = (s1, l1)" by (cases "solve_start ext s") auto
  then have r1: "rows (out s1) = rows (out s)"
    by (auto simp: solve_start_def header_def split: prod.splits)
  obtain r s2 l2 where lp: "solve_loop ext 0 (s1, l1) = (r, s2, l2)"
    by (cases "solve_loop ext 0 (s1, l1)") auto
  from solve_loop_results[OF _ lp] have
    rws: "rows (out s2) \<le> rows (out s1) + 501" and
    shape: "r = Inl (ValueError derivative_zero_message)
      \<or> (\<exists>oc k' evs. r = Inr (oc, k') \<and> out s2 = evs @ [Print (exit_message oc)] \<and>
            (oc = EXHAUSTED \<and> k' = 499 \<or> oc \<noteq> EXHAUSTED \<and> 0 \<le> k' \<and> k' < 500))"
    by auto
  have sv: "solve ext s = solve_finish (r, s2, l2)" by (simp add: solve_def st lp)
  have a: "\<exists>s' l'. solve ext s = (Inl (ValueError derivative_zero_message), s', l')
      \<or> (\<exists>oc k evs. solve ext s = (Inr oc, s', l') \<and> 0 \<le> k \<and> k < 500 \<and>
            out s' = evs @ [Print (exit_message oc), Save_rho (rho s') (objective l') (k + 1)])"
    using shape
  proof
    assume "r = Inl (ValueError derivative_zero_message)"
    then show ?thesis by (simp add: sv solve_finish_def)
  next
    assume "\<exists>oc k' evs. r = Inr (oc, k') \<and> out s2 = evs @ [Print (exit_message oc)] \<and>
            (oc = EXHAUSTED \<and> k' = 499 \<or> oc \<noteq> EXHAUSTED \<and> 0 \<le> k' \<and> k' < 500)"
    then obtain oc k' evs where o: "r = Inr (oc, k')" "out s2 = evs @ [Print (exit_message oc)]"
      "0 \<le> k'" "k' < 500" by auto
    have "solve ext s = (Inr oc, save_rho s2 (rho s2) (objective l2) (k' + 1), l2)"
      by (simp add: sv solve_finish_def o(1))
    moreover have "out (save_rho s2 (rho s2) (objective l2) (k' + 1))
        = evs @ [Print (exit_message oc), Save_rho (rho (save_rho s2 (rho s2) (objective l2) (k' + 1))) (objective l2) (k' + 1)]"
      by (simp add: save_rho_def o(2))
    ultimately show ?thesis using o(3,4) by blast
  qed
  have b: "rows (out (fst (snd (solve ext s)))) \<le> rows (out s) + 501"
    using rws r1 by (cases r) (auto simp: sv solve_finish_def save_rho_def)
  have c: "snd (snd (project ex vols h V)) \<le> 10"
    using project_shape[of ex vols h V "fst (project ex vols h V)" "fst (snd (project ex vols h V))"
        "snd (snd (project ex vols h V))"] by (simp add: max_iterations_def)
  from a b c show ?thesis by blast
qed

section \<open>Step-size policy\<close>

text \<open>
  Claim C7. For every iteration index \<open>k \<ge> 0\<close> the step size is \<open>25 * (k + 1)\<close>; it is
  strictly increasing in \<open>k\<close> and equals the base rate 25 at \<open>k = 0\<close>.
\<close>

theorem step_size_policy:
  "step_size k = 25 * (k + 1) \<and> step_size 0 = 25 \<and> (\<forall>j. (j < k) = (step_size j < step_size k))"
  by (simp add: step_size_def)

section \<open>The range of the density\<close>




section \<open>Designs the parser rejects\<close>




section \<open>No rollback on divergence\<close>

text \<open>
  Claim C10. When the step of iteration \<open>k\<close> increases the objective, the loop ends as
  \<open>DIVERGED\<close> in that iteration whatever the density delta would be, also when it is below the
  tolerance. The density delta is not computed: \<open>difference\<close> keeps the value of the iteration
  before, which is also what the last row shows. \<open>psi\<close>, \<open>rho\<close> and \<open>objective\<close> hold the values
  after the step, the objective is larger than before, and the final snapshot records that
  density and that objective under index \<open>k + 1\<close>.
\<close>

theorem no_rollback_on_divergence:
  assumes "step ext (announce k s l) (psi l) (step_size k) = (Inr psi', s3)"
    and "calculate_objective ext (problem s3) (map (expit (np_exp ext)) psi') = (obj, p')"
    and "objective l - obj < 0"
    and "k < 500"
  shows "(density_delta (mesh s) (map (expit (np_exp ext)) psi') (map (expit (np_exp ext)) (psi l))
            < tolerance k \<longrightarrow> fst (solve_loop ext k (s, l)) = Inr (DIVERGED, k))
    \<and> fst (solve_loop ext k (s, l)) = Inr (DIVERGED, k)
    \<and> difference (snd (snd (solve_loop ext k (s, l)))) = difference l
    \<and> psi (snd (snd (solve_loop ext k (s, l)))) = psi'
    \<and> previous_psi (snd (snd (solve_loop ext k (s, l)))) = Some (psi l)
    \<and> rho (fst (snd (solve_loop ext k (s, l)))) = map (expit (np_exp ext)) psi'
    \<and> objective (snd (snd (solve_loop ext k (s, l)))) = obj
    \<and> objective l < obj
    \<and> (\<exists>evs. out (fst (snd (solve_loop ext k (s, l)))) =
           evs @ [print_values (k + 1) obj (Some (objective l - obj)) (difference l),
                  Print (exit_message DIVERGED)])
    \<and> last (out (fst (snd (solve_finish (solve_loop ext k (s, l)))))) =
        Save_rho (map (expit (np_exp ext)) psi') obj (k + 1)"
proof -
  let ?s' = "s3\<lparr>rho := map (expit (np_exp ext)) psi', problem := p',
                 out := out s3 @ [print_values (k + 1) obj (Some (objective l - obj)) (difference l),
                                  Print (exit_message DIVERGED)]\<rparr>"
  let ?l' = "l\<lparr>previous_psi := Some (psi l), psi := psi', objective := obj,
                objective_difference := Some (objective l - obj)\<rparr>"
  have it: "iteration ext k (s, l) = (Inr (Some DIVERGED), ?s', ?l')"
    unfolding iteration_pass[OF assms(1,2)] using assms(3) by (simp add: Let_def)
  have lp: "solve_loop ext k (s, l) = (Inr (DIVERGED, k), ?s', ?l')"
    by (simp add: solve_loop_step[OF assms(4)] it)
  show ?thesis unfolding lp using assms(3) by (simp add: solve_finish_def save_rho_def)
qed

text \<open>
  The theorem on the unit square with an objective that grows by 1 with every evaluation and a
  zero gradient: the density does not move, so its delta is below the tolerance, and the run
  still ends as \<open>DIVERGED\<close>.
\<close>

theorem no_rollback_on_divergence_witness:
  "density_delta [1] [1 / 2] [1 / 2] < tolerance 0
   \<and> fst (solve_loop (stub exp 1 0) 0 (solve_start (stub exp 1 0) unit_square)) = Inr (DIVERGED, 0)
   \<and> difference (snd (snd (solve_loop (stub exp 1 0) 0 (solve_start (stub exp 1 0) unit_square))))
       = Infinity
   \<and> objective (snd (snd (solve_loop (stub exp 1 0) 0 (solve_start (stub exp 1 0) unit_square)))) = 1"
proof -
  let ?ext = "stub exp 1 0"
  let ?s = "fst (solve_start ?ext unit_square)"
  let ?l = "snd (solve_start ?ext unit_square)"
  let ?st = "step ?ext (announce 0 ?s ?l) (psi ?l) (step_size 0)"
  have 1: "?st = (Inr [0], snd ?st)"
    using flat_step[of 1] by (simp add: prod_eq_iff)
  have 2: "calculate_objective ?ext (problem (snd ?st)) (map (expit (np_exp ?ext)) [0]) = (1, 2)"
    by (simp add: flat_problem)
  have 3: "objective ?l - 1 < 0" by (simp add: start_unit_square)
  have 4: "(0::int) < 500" by simp
  have d: "density_delta [1] [1 / 2] [1 / 2] < tolerance 0"
    by (simp add: density_delta_def tolerance_def step_size_def ntol_def itol_def)
  have l: "difference ?l = Infinity" by (simp add: start_unit_square)
  from no_rollback_on_divergence[OF 1 2 3 4] d l show ?thesis by simp
qed

end
